theory Spec2Isabelle
  imports Main
begin

section \<open>Values of the host language\<close>

text \<open>
  The result of the built-in \<open>parseInt\<close>: either \<open>NaN\<close> (the text has no leading
  integer) or an integer. \<open>parseInt\<close> itself is not code of the repository; its result is an
  input of the handlers below.
\<close>

datatype js_number = NaN | Num int

text \<open>\<open>x || 0\<close> on a number: \<open>NaN\<close> and \<open>0\<close> are falsy, every other number is kept.\<close>

fun or_zero :: "js_number \<Rightarrow> int" where
  "or_zero NaN = 0"
| "or_zero (Num n) = (if n = 0 then 0 else n)"

text \<open>\<open>s || d\<close> on an optional string: \<open>undefined\<close> and the empty string are falsy.\<close>

fun or_default :: "string option \<Rightarrow> string \<Rightarrow> string" where
  "or_default None d = d"
| "or_default (Some s) d = (if s = [] then d else s)"

text \<open>\<open>!!j\<close> on a value that is \<open>null\<close> or a string.\<close>

fun truthy :: "string option \<Rightarrow> bool" where
  "truthy None = False"
| "truthy (Some s) = (s \<noteq> [])"

text \<open>
  Decimal rendering of a non-negative integer, as a template literal renders
  \<open>Date.now()\<close> and \<open>assets.length\<close>.
\<close>

fun decimal :: "nat \<Rightarrow> string" where
  "decimal n =
     (if n < 10 then [''0123456789'' ! n]
      else decimal (n div 10) @ [''0123456789'' ! (n mod 10)])"

declare decimal.simps [simp del]

datatype js_error = TypeError

section \<open>OutputConfigPanel: the registry of output specifications\<close>

record output_spec =
  id' :: string
  type :: string
  enabled :: bool
  language :: string
  width :: int
  height :: int
  formats :: "string list"
  generatePrint :: bool

record output_type =
  type_id :: string
  label :: string
  defaultWidth :: int
  defaultHeight :: int

definition OUTPUT_TYPES :: "output_type list" where
  "OUTPUT_TYPES =
     [\<lparr>type_id = ''poster'', label = ''Poster'', defaultWidth = 1080, defaultHeight = 1350\<rparr>,
      \<lparr>type_id = ''banner'', label = ''Banner'', defaultWidth = 1920, defaultHeight = 600\<rparr>,
      \<lparr>type_id = ''ad'', label = ''Advertisement'', defaultWidth = 1200, defaultHeight = 628\<rparr>,
      \<lparr>type_id = ''social_post'', label = ''Social Post'', defaultWidth = 1080,
         defaultHeight = 1080\<rparr>,
      \<lparr>type_id = ''brochure'', label = ''Brochure'', defaultWidth = 816, defaultHeight = 1056\<rparr>]"

text \<open>The initial value of the \<open>outputs\<close> state of \<open>GeneratorPage\<close>.\<close>

definition initial_outputs :: "output_spec list" where
  "initial_outputs =
     [\<lparr>id' = ''poster'', type = ''poster'', enabled = True, language = ''English'',
       width = 1080, height = 1350, formats = [''png'', ''jpeg'', ''pdf''],
       generatePrint = True\<rparr>]"

text \<open>
  \<open>addOutput(type)\<close>; the second argument is the value \<open>Date.now()\<close> returns. When
  \<open>OUTPUT_TYPES.find\<close> yields \<open>undefined\<close>, reading \<open>outputType.defaultWidth\<close> throws and
  \<open>setOutputs\<close> is not reached.
\<close>

definition addOutput :: "string \<Rightarrow> nat \<Rightarrow> output_spec list \<Rightarrow> js_error + output_spec list" where
  "addOutput t now outputs =
     (case find (\<lambda>x. type_id x = t) OUTPUT_TYPES of
        None \<Rightarrow> Inl TypeError
      | Some outputType \<Rightarrow>
          Inr (outputs @
            [\<lparr>id' = t @ ''_'' @ decimal now, type = t, enabled = True, language = ''English'',
              width = defaultWidth outputType, height = defaultHeight outputType,
              formats = [''png'', ''jpeg'', ''pdf''], generatePrint = (t = ''poster'')\<rparr>]))"

text \<open>
  \<open>updateOutput(id, field, value)\<close>: the pair of field name and value is one constructor
  per field of the record, carrying a value of the field's type.
\<close>

datatype field_name =
  F_id | F_type | F_enabled | F_language | F_width | F_height | F_formats | F_generatePrint

datatype field_update =
    Set_id string
  | Set_type string
  | Set_enabled bool
  | Set_language string
  | Set_width int
  | Set_height int
  | Set_formats "string list"
  | Set_generatePrint bool

fun field_of :: "field_update \<Rightarrow> field_name" where
  "field_of (Set_id v) = F_id"
| "field_of (Set_type v) = F_type"
| "field_of (Set_enabled v) = F_enabled"
| "field_of (Set_language v) = F_language"
| "field_of (Set_width v) = F_width"
| "field_of (Set_height v) = F_height"
| "field_of (Set_formats v) = F_formats"
| "field_of (Set_generatePrint v) = F_generatePrint"

text \<open>\<open>{ ...output, [field]: value }\<close>\<close>

fun assign :: "field_update \<Rightarrow> output_spec \<Rightarrow> output_spec" where
  "assign (Set_id v) output = output\<lparr>id' := v\<rparr>"
| "assign (Set_type v) output = output\<lparr>type := v\<rparr>"
| "assign (Set_enabled v) output = output\<lparr>enabled := v\<rparr>"
| "assign (Set_language v) output = output\<lparr>language := v\<rparr>"
| "assign (Set_width v) output = output\<lparr>width := v\<rparr>"
| "assign (Set_height v) output = output\<lparr>height := v\<rparr>"
| "assign (Set_formats v) output = output\<lparr>formats := v\<rparr>"
| "assign (Set_generatePrint v) output = output\<lparr>generatePrint := v\<rparr>"

text \<open>\<open>output[field]\<close>, as a pair of field name and value.\<close>

fun read_field :: "field_name \<Rightarrow> output_spec \<Rightarrow> field_update" where
  "read_field F_id output = Set_id (id' output)"
| "read_field F_type output = Set_type (type output)"
| "read_field F_enabled output = Set_enabled (enabled output)"
| "read_field F_language output = Set_language (language output)"
| "read_field F_width output = Set_width (width output)"
| "read_field F_height output = Set_height (height output)"
| "read_field F_formats output = Set_formats (formats output)"
| "read_field F_generatePrint output = Set_generatePrint (generatePrint output)"

definition updateOutput :: "string \<Rightarrow> field_update \<Rightarrow> output_spec list \<Rightarrow> output_spec list" where
  "updateOutput i fv outputs =
     map (\<lambda>output. if id' output = i then assign fv output else output) outputs"

definition toggleFormat :: "string \<Rightarrow> string \<Rightarrow> output_spec list \<Rightarrow> output_spec list" where
  "toggleFormat outputId format outputs =
     map (\<lambda>output.
            if id' output = outputId
            then output\<lparr>formats :=
                   (if format \<in> set (formats output)
                    then filter (\<lambda>f. f \<noteq> format) (formats output)
                    else formats output @ [format])\<rparr>
            else output) outputs"

definition removeOutput :: "string \<Rightarrow> output_spec list \<Rightarrow> output_spec list" where
  "removeOutput i outputs = filter (\<lambda>output. id' output \<noteq> i) outputs"

text \<open>
  The handlers the panel attaches to its widgets. The Remove button of an output is
  rendered only when \<open>outputs.length > 1\<close>; without the button there is nothing to click and
  the registry stays as it is.
\<close>

definition Remove_onClick :: "string \<Rightarrow> output_spec list \<Rightarrow> output_spec list" where
  "Remove_onClick i outputs = (if length outputs > 1 then removeOutput i outputs else outputs)"

text \<open>
  The width and height inputs: \<open>updateOutput(output.id, 'width', parseInt(e.target.value) || 0)\<close>;
  the argument is what \<open>parseInt\<close> returned.
\<close>

definition width_onChange :: "string \<Rightarrow> js_number \<Rightarrow> output_spec list \<Rightarrow> output_spec list" where
  "width_onChange i parsed outputs = updateOutput i (Set_width (or_zero parsed)) outputs"

definition height_onChange :: "string \<Rightarrow> js_number \<Rightarrow> output_spec list \<Rightarrow> output_spec list" where
  "height_onChange i parsed outputs = updateOutput i (Set_height (or_zero parsed)) outputs"

text \<open>
  The operations that the widgets of the panel trigger on the registry: choosing a type
  in the Add select (with the clock reading), the enabled checkbox, the language select,
  a width or height input (with what \<open>parseInt\<close> returned), a format checkbox, the print
  switch, a Remove button. An \<open>addOutput\<close> that throws leaves the state as it was.
\<close>

datatype registry_op =
    Add string nat
  | Check string bool
  | Choose_language string string
  | Edit_width string js_number
  | Edit_height string js_number
  | Toggle string string
  | Switch_print string bool
  | Remove string

fun apply_op :: "registry_op \<Rightarrow> output_spec list \<Rightarrow> output_spec list" where
  "apply_op (Add t now) outputs =
     (case addOutput t now outputs of Inl e \<Rightarrow> outputs | Inr outputs' \<Rightarrow> outputs')"
| "apply_op (Check i checked) outputs = updateOutput i (Set_enabled checked) outputs"
| "apply_op (Choose_language i v) outputs = updateOutput i (Set_language v) outputs"
| "apply_op (Edit_width i parsed) outputs = width_onChange i parsed outputs"
| "apply_op (Edit_height i parsed) outputs = height_onChange i parsed outputs"
| "apply_op (Toggle i f) outputs = toggleFormat i f outputs"
| "apply_op (Switch_print i checked) outputs = updateOutput i (Set_generatePrint checked) outputs"
| "apply_op (Remove i) outputs = Remove_onClick i outputs"

definition apply_ops :: "registry_op list \<Rightarrow> output_spec list \<Rightarrow> output_spec list" where
  "apply_ops ops outputs = fold apply_op ops outputs"

text \<open>The clock readings of the adds in a sequence of operations.\<close>

fun add_times :: "registry_op list \<Rightarrow> nat list" where
  "add_times [] = []"
| "add_times (Add t now # ops) = now # add_times ops"
| "add_times (op # ops) = add_times ops"

text \<open>
  The part of an id after its last underscore, and the shape of the ids of a registry:
  some, all different, each either the id of the initial entry or a type followed by an
  underscore and a clock reading of the given set.
\<close>

definition stamp :: "string \<Rightarrow> string" where
  "stamp s = rev (takeWhile (\<lambda>c. c \<noteq> CHR ''_'') (rev s))"

definition stamped :: "nat set \<Rightarrow> string list \<Rightarrow> bool" where
  "stamped used ids \<longleftrightarrow>
     ids \<noteq> [] \<and> distinct ids \<and>
     (\<forall>i \<in> set ids. i = ''poster'' \<or> (\<exists>t n. n \<in> used \<and> i = t @ ''_'' @ decimal n))"

text \<open>An edit of a size input whose text parses to a positive integer.\<close>

fun positive_edit :: "registry_op \<Rightarrow> bool" where
  "positive_edit (Edit_width i NaN) = False"
| "positive_edit (Edit_width i (Num n)) = (0 < n)"
| "positive_edit (Edit_height i NaN) = False"
| "positive_edit (Edit_height i (Num n)) = (0 < n)"
| "positive_edit _ = True"

definition positive_size :: "output_spec \<Rightarrow> bool" where
  "positive_size output = (0 < width output \<and> 0 < height output)"

section \<open>GeneratorPage: state, requests and observable effects\<close>

text \<open>
  An entry of \<open>assetsResponse.data.assets\<close>. The fields \<open>id\<close>, \<open>language\<close>, \<open>width\<close>
  and \<open>height\<close> carry the prefix \<open>asset_\<close> here, since the output specification has
  fields of the same names.
\<close>

record asset =
  asset_id :: string
  output_type :: string
  asset_language :: string
  asset_width :: int
  asset_height :: int
  format :: string
  data :: string
  alt_text :: "string option"
  contrast_score :: "nat option"

record settings =
  auto_alt_text :: bool
  contrast_check :: bool
  brand_guidelines :: bool

text \<open>One element of \<open>request.outputs\<close>, and the request body of \<open>POST /api/generate\<close>.\<close>

record generation_output =
  out_type :: string
  out_language :: string
  out_width :: int
  out_height :: int
  out_formats :: "string list"
  generate_print :: bool

record generation_request =
  job_id :: string
  request_outputs :: "generation_output list"
  request_settings :: settings

text \<open>The state variables of \<open>GeneratorPage\<close> that \<open>handleGenerate\<close> reads or writes.\<close>

record page_state =
  jobId :: "string option"
  isGenerating :: bool
  generatedAssets :: "asset list"
  outputs :: "output_spec list"
  globalSettings :: settings

text \<open>
  The calls the page makes on its collaborators, in the order it makes them: the toast
  library, the console, the HTTP client, the timer functions of the host, and the click on
  a download link (file name and data URI).
\<close>

datatype toast_kind = Success | Error

datatype effect =
    Toast toast_kind string
  | Console_error string
  | Post_generate generation_request
  | Get_job string
  | Get_assets string
  | Set_interval nat
  | Set_timeout nat
  | Clear_interval
  | Download string string

fun is_toast :: "effect \<Rightarrow> bool" where
  "is_toast (Toast k m) = True"
| "is_toast _ = False"

fun is_status_query :: "effect \<Rightarrow> bool" where
  "is_status_query (Get_job j) = True"
| "is_status_query _ = False"

fun is_network_call :: "effect \<Rightarrow> bool" where
  "is_network_call (Post_generate q) = True"
| "is_network_call (Get_job j) = True"
| "is_network_call (Get_assets j) = True"
| "is_network_call _ = False"

definition toasts :: "effect list \<Rightarrow> effect list" where
  "toasts es = filter is_toast es"

definition status_queries :: "effect list \<Rightarrow> effect list" where
  "status_queries es = filter is_status_query es"

definition network_calls :: "effect list \<Rightarrow> effect list" where
  "network_calls es = filter is_network_call es"

section \<open>GeneratorPage: handleGenerate\<close>

text \<open>The body of \<open>GET /api/jobs/{job_id}\<close>.\<close>

record job_response =
  status :: string
  error :: "string option"

text \<open>
  The handle \<open>pollInterval\<close>: not yet assigned, an interval that still fires, or one
  that \<open>clearInterval\<close> has stopped.
\<close>

datatype interval_handle = Unset | Active | Cleared

text \<open>
  One invocation of \<open>handleGenerate\<close> that has passed its two checks: the page state it
  acts on, the calls it has made so far, the variables its closures captured
  (\<open>jobId\<close> and \<open>isGenerating\<close> are constants of the render in which the handler was
  created), and what it still waits for: the answer to the POST, the interval and the
  timeout of the host, and the answers to status queries and asset fetches that are under
  way. The continuation after an \<open>await\<close> is the same for every pending request of a
  kind, so a count of them is enough.
\<close>

record run =
  page :: page_state
  log :: "effect list"
  closure_jobId :: string
  closure_isGenerating :: bool
  generate_pending :: bool
  pollInterval :: interval_handle
  timeout_pending :: bool
  jobs_pending :: nat
  assets_pending :: nat

text \<open>
  \<open>handleGenerate\<close> up to its first \<open>await\<close>: either it returned after a toast, with the
  page state and the calls made, or it is suspended on the POST.
\<close>

datatype outcome = Returned page_state "effect list" | Suspended run

definition wire :: "output_spec \<Rightarrow> generation_output" where
  "wire o' = \<lparr>out_type = type o', out_language = language o', out_width = width o',
     out_height = height o', out_formats = formats o',
     generate_print = (generatePrint o' \<or> False)\<rparr>"

definition handleGenerate :: "page_state \<Rightarrow> outcome" where
  "handleGenerate s =
     (if \<not> truthy (jobId s) then Returned s [Toast Error ''Please upload an image first'']
      else
        let enabledOutputs = filter enabled (outputs s) in
        if length enabledOutputs = 0
        then Returned s [Toast Error ''Please enable at least one output type'']
        else
          let j = (case jobId s of Some j \<Rightarrow> j | None \<Rightarrow> []);
              request = \<lparr>job_id = j, request_outputs = map wire enabledOutputs,
                          request_settings = globalSettings s\<rparr>
          in Suspended
               \<lparr>page = s\<lparr>isGenerating := True, generatedAssets := []\<rparr>,
                log = [Post_generate request],
                closure_jobId = j,
                closure_isGenerating = isGenerating s,
                generate_pending = True,
                pollInterval = Unset,
                timeout_pending = False,
                jobs_pending = 0,
                assets_pending = 0\<rparr>)"

text \<open>
  What the host can deliver to a suspended run: the POST resolves or is rejected (with
  \<open>error.response?.data?.detail\<close>), the interval fires, a pending status query resolves
  with a body or is rejected, a pending asset fetch resolves with the assets or is
  rejected, the timeout fires.
\<close>

datatype event =
    Generate_resolved
  | Generate_rejected "string option"
  | Interval_tick
  | Job_resolved job_response
  | Job_rejected
  | Assets_resolved "asset list"
  | Assets_rejected
  | Timeout_fired

text \<open>The \<open>catch\<close> block of the interval callback.\<close>

definition polling_catch :: "run \<Rightarrow> run" where
  "polling_catch r =
     r\<lparr>pollInterval := Cleared,
       page := (page r)\<lparr>isGenerating := False\<rparr>,
       log := log r @ [Clear_interval, Console_error ''Polling error:'']\<rparr>"

text \<open>
  One event on a run. An event the run does not wait for (no such request pending, the
  interval not active, the timeout not armed) cannot happen and leaves the run as it is.
\<close>

fun step :: "event \<Rightarrow> run \<Rightarrow> run" where
  "step Generate_resolved r =
     (if generate_pending r
      then r\<lparr>generate_pending := False,
             log := log r @ [Toast Success ''Generation started! This may take a moment...'',
                             Set_interval 3000, Set_timeout 300000],
             pollInterval := Active,
             timeout_pending := True\<rparr>
      else r)"
| "step (Generate_rejected detail) r =
     (if generate_pending r
      then r\<lparr>generate_pending := False,
             page := (page r)\<lparr>isGenerating := False\<rparr>,
             log := log r @ [Console_error ''Generation error:'',
                             Toast Error (or_default detail ''Failed to generate assets'')]\<rparr>
      else r)"
| "step Interval_tick r =
     (if pollInterval r = Active
      then r\<lparr>log := log r @ [Get_job (closure_jobId r)], jobs_pending := Suc (jobs_pending r)\<rparr>
      else r)"
| "step (Job_resolved jobResponse) r =
     (if jobs_pending r = 0 then r
      else
        let r' = r\<lparr>jobs_pending := jobs_pending r - 1\<rparr> in
        if status jobResponse = ''completed''
        then r'\<lparr>pollInterval := Cleared,
                log := log r' @ [Clear_interval, Get_assets (closure_jobId r')],
                assets_pending := Suc (assets_pending r')\<rparr>
        else if status jobResponse = ''failed''
        then r'\<lparr>pollInterval := Cleared,
                page := (page r')\<lparr>isGenerating := False\<rparr>,
                log := log r' @ [Clear_interval,
                                 Toast Error (or_default (error jobResponse) ''Generation failed'')]\<rparr>
        else r')"
| "step Job_rejected r =
     (if jobs_pending r = 0 then r
      else polling_catch (r\<lparr>jobs_pending := jobs_pending r - 1\<rparr>))"
| "step (Assets_resolved assets) r =
     (if assets_pending r = 0 then r
      else r\<lparr>assets_pending := assets_pending r - 1,
             page := (page r)\<lparr>generatedAssets := assets, isGenerating := False\<rparr>,
             log := log r @ [Toast Success (''Generated '' @ decimal (length assets) @
                                             '' assets successfully!'')]\<rparr>)"
| "step Assets_rejected r =
     (if assets_pending r = 0 then r
      else polling_catch (r\<lparr>assets_pending := assets_pending r - 1\<rparr>))"
| "step Timeout_fired r =
     (if timeout_pending r
      then
        let r' = r\<lparr>timeout_pending := False, pollInterval := Cleared,
                    log := log r @ [Clear_interval]\<rparr> in
        if closure_isGenerating r'
        then r'\<lparr>page := (page r')\<lparr>isGenerating := False\<rparr>,
                log := log r' @ [Toast Error ''Generation timed out. Please try again.'']\<rparr>
        else r'
      else r)"

definition steps :: "event list \<Rightarrow> run \<Rightarrow> run" where
  "steps es r = fold step es r"

text \<open>
  The events that record a terminal classification: a status answer classified as
  completed or failed, an exception caught in the interval callback, the timeout.
\<close>

fun terminal_event :: "event \<Rightarrow> run \<Rightarrow> bool" where
  "terminal_event (Job_resolved jobResponse) r =
     (0 < jobs_pending r \<and> (status jobResponse = ''completed'' \<or> status jobResponse = ''failed''))"
| "terminal_event Job_rejected r = (0 < jobs_pending r)"
| "terminal_event Assets_rejected r = (0 < assets_pending r)"
| "terminal_event Timeout_fired r = timeout_pending r"
| "terminal_event _ r = False"

section \<open>GeneratorPage and PreviewGrid: downloads\<close>

text \<open>
  \<open>downloadAsset\<close> of \<open>PreviewGrid\<close>. The parameter \<open>str\<close> is the conversion of a number
  to a string that the template literal applies to \<open>asset.width\<close> and \<open>asset.height\<close>.
\<close>

definition downloadAsset :: "(int \<Rightarrow> string) \<Rightarrow> asset \<Rightarrow> effect" where
  "downloadAsset str a =
     (let filename = ''asset_'' @ output_type a @ ''_'' @ asset_language a @ ''_'' @
                     str (asset_width a) @ ''x'' @ str (asset_height a) @ ''.'' @ format a;
          href = ''data:image/'' @ format a @ '';base64,'' @ data a
      in Download filename href)"

text \<open>
  \<open>handleDownloadAll\<close>: the \<open>forEach\<close> registers one timeout per asset, with delay
  \<open>index * 100\<close> and a callback that clicks a link; then the toast. The result is the list
  of registered timeouts, in registration order, and the calls made at once.
\<close>

fun forEach_timeouts :: "(int \<Rightarrow> string) \<Rightarrow> nat \<Rightarrow> asset list \<Rightarrow> (nat \<times> effect) list" where
  "forEach_timeouts str index [] = []"
| "forEach_timeouts str index (a # rest) =
     (index * 100,
      Download (''asset_'' @ output_type a @ ''_'' @ asset_language a @ ''_'' @
                str (asset_width a) @ ''x'' @ str (asset_height a) @ ''.'' @ format a)
               (''data:image/'' @ format a @ '';base64,'' @ data a))
     # forEach_timeouts str (Suc index) rest"

definition handleDownloadAll :: "(int \<Rightarrow> string) \<Rightarrow> asset list \<Rightarrow> (nat \<times> effect) list \<times> effect list" where
  "handleDownloadAll str generatedAssets' =
     (forEach_timeouts str 0 generatedAssets', [Toast Success ''Downloading all assets...''])"

text \<open>
  The host runs registered timeouts in the order of their delays, and those of equal
  delay in the order of registration: a stable sort by delay gives the pairs of firing
  time and call.
\<close>

definition fire_order :: "(nat \<times> effect) list \<Rightarrow> (nat \<times> effect) list" where
  "fire_order timeouts = sort_key fst timeouts"

text \<open>
  The file name as the specification words it:
  \<open>asset_{type}_{language}_{width}x{height}.{format}\<close>.
\<close>

definition spec_filename :: "(int \<Rightarrow> string) \<Rightarrow> asset \<Rightarrow> string" where
  "spec_filename str a =
     concat [''asset_'', output_type a, ''_'', asset_language a, ''_'', str (asset_width a),
             ''x'', str (asset_height a), ''.'', format a]"

fun download_name :: "effect \<Rightarrow> string option" where
  "download_name (Download filename href) = Some filename"
| "download_name _ = None"

section \<open>Observations and sample inputs\<close>

text \<open>The membership of the \<open>formats\<close> array of an entry, with all its other fields.\<close>

definition membership :: "output_spec \<Rightarrow> string set \<times> output_spec" where
  "membership output = (set (formats output), output\<lparr>formats := []\<rparr>)"

fun outcome_log :: "outcome \<Rightarrow> effect list" where
  "outcome_log (Returned s l) = l"
| "outcome_log (Suspended r) = log r"

fun posted :: "effect \<Rightarrow> generation_request option" where
  "posted (Post_generate q) = Some q"
| "posted _ = None"

text \<open>The request bodies that an invocation of \<open>handleGenerate\<close> has sent.\<close>

definition submitted :: "outcome \<Rightarrow> generation_request list" where
  "submitted out = List.map_filter posted (outcome_log out)"

text \<open>A click on Generate followed by the events the host delivers to that invocation.\<close>

definition start :: "page_state \<Rightarrow> run option" where
  "start s = (case handleGenerate s of Returned s' l \<Rightarrow> None | Suspended r \<Rightarrow> Some r)"

definition run_events :: "page_state \<Rightarrow> event list \<Rightarrow> run option" where
  "run_events s es = map_option (steps es) (start s)"

text \<open>
  What is seen of a run: the spinner, the handle of the interval and the toasts shown; the
  calls it made after the POST; the status queries it sent; the calls that one more event
  adds.
\<close>

definition observe :: "run \<Rightarrow> bool \<times> interval_handle \<times> effect list" where
  "observe r = (isGenerating (page r), pollInterval r, toasts (log r))"

definition calls_after_submit :: "run \<Rightarrow> effect list" where
  "calls_after_submit r = drop 1 (log r)"

definition queries_sent :: "run \<Rightarrow> effect list" where
  "queries_sent r = status_queries (log r)"

definition appended :: "event \<Rightarrow> run \<Rightarrow> effect list" where
  "appended e r = drop (length (log r)) (log (step e r))"

definition request_formats :: "generation_request \<Rightarrow> string list list" where
  "request_formats q = map out_formats (request_outputs q)"

text \<open>
  The initial state of \<open>GeneratorPage\<close>, and the same page after an upload that the
  backend answered with the job id \<open>J1\<close>.
\<close>

definition initial_settings :: settings where
  "initial_settings = \<lparr>auto_alt_text = True, contrast_check = True, brand_guidelines = False\<rparr>"

definition initial_page :: page_state where
  "initial_page = \<lparr>jobId = None, isGenerating = False, generatedAssets = [],
     outputs = initial_outputs, globalSettings = initial_settings\<rparr>"

definition uploaded_page :: page_state where
  "uploaded_page = initial_page\<lparr>jobId := Some ''J1''\<rparr>"

definition pending :: job_response where
  "pending = \<lparr>status = ''pending'', error = None\<rparr>"

definition completed :: job_response where
  "completed = \<lparr>status = ''completed'', error = None\<rparr>"

definition poster_png :: asset where
  "poster_png = \<lparr>asset_id = ''a1'', output_type = ''poster'', asset_language = ''English'',
     asset_width = 1080, asset_height = 1350, format = ''png'', data = ''iVBORw0KGgo='',
     alt_text = None, contrast_score = None\<rparr>"

text \<open>A registry of two entries: the initial poster and a banner added afterwards.\<close>

definition two_outputs :: "output_spec list" where
  "two_outputs = initial_outputs @
     [\<lparr>id' = ''banner_1700000000000'', type = ''banner'', enabled = True,
       language = ''English'', width = 1920, height = 600,
       formats = [''png'', ''jpeg'', ''pdf''], generatePrint = False\<rparr>]"

section \<open>The registry: round trip, frame and invariants\<close>

text \<open>
  Claim C8. Toggling the same format of the same output twice gives back, for every entry
  of the registry, a formats array with the same members as before, and changes no other
  field of any entry.
\<close>

theorem toggleFormat_twice_membership:
  "map membership (toggleFormat i f (toggleFormat i f registry)) = map membership registry"
  by (auto simp: toggleFormat_def membership_def)

lemma updateOutput_length: "length (updateOutput i fv registry) = length registry"
  by (simp add: updateOutput_def)

lemma toggleFormat_length: "length (toggleFormat i f registry) = length registry"
  by (simp add: toggleFormat_def)

lemma assign_frame: "n \<noteq> field_of fv \<Longrightarrow> read_field n (assign fv x) = read_field n x"
  by (cases fv; cases n) simp_all

lemma updateOutput_absent: "i \<notin> id' ` set registry \<Longrightarrow> updateOutput i fv registry = registry"
  by (induction registry) (auto simp: updateOutput_def)

lemma toggleFormat_absent: "i \<notin> id' ` set registry \<Longrightarrow> toggleFormat i f registry = registry"
  by (induction registry) (auto simp: toggleFormat_def)

text \<open>
  Claim C10. \<open>updateOutput\<close> and \<open>toggleFormat\<close> keep the number and the positions of the
  entries; an entry whose id differs from the given one is returned as it was; in an entry
  with the given id every field other than the named one (for \<open>toggleFormat\<close>: other than
  \<open>formats\<close>) reads as before; and when no entry has the given id the registry is
  returned unchanged.
\<close>

theorem update_toggle_frame:
  "length (updateOutput i fv registry) = length registry \<and>
   length (toggleFormat i f registry) = length registry \<and>
   (\<forall>k < length registry. id' (registry ! k) \<noteq> i \<longrightarrow>
      updateOutput i fv registry ! k = registry ! k \<and>
      toggleFormat i f registry ! k = registry ! k) \<and>
   (\<forall>k < length registry. \<forall>n. id' (registry ! k) = i \<longrightarrow>
      (n \<noteq> field_of fv \<longrightarrow>
         read_field n (updateOutput i fv registry ! k) = read_field n (registry ! k)) \<and>
      (n \<noteq> F_formats \<longrightarrow>
         read_field n (toggleFormat i f registry ! k) = read_field n (registry ! k))) \<and>
   (i \<notin> id' ` set registry \<longrightarrow>
      updateOutput i fv registry = registry \<and> toggleFormat i f registry = registry)"
proof (intro conjI allI impI)
  show "length (updateOutput i fv registry) = length registry" by (rule updateOutput_length)
  show "length (toggleFormat i f registry) = length registry" by (rule toggleFormat_length)
next
  fix k assume "k < length registry" "id' (registry ! k) \<noteq> i"
  then show "updateOutput i fv registry ! k = registry ! k"
    and "toggleFormat i f registry ! k = registry ! k"
    by (simp_all add: updateOutput_def toggleFormat_def)
next
  fix k n assume k: "k < length registry" and "id' (registry ! k) = i"
  { assume "n \<noteq> field_of fv"
    with k show "read_field n (updateOutput i fv registry ! k) = read_field n (registry ! k)"
      by (simp add: updateOutput_def assign_frame) }
  { assume "n \<noteq> F_formats"
    with k show "read_field n (toggleFormat i f registry ! k) = read_field n (registry ! k)"
      by (cases n) (simp_all add: toggleFormat_def) }
next
  assume "i \<notin> id' ` set registry"
  then show "updateOutput i fv registry = registry" and "toggleFormat i f registry = registry"
    by (simp_all add: updateOutput_absent toggleFormat_absent)
qed

text \<open>
  On the registry of two entries: an update of the poster's width and a toggle of its
  formats leave the banner as it was and leave the poster's height; an id that no entry
  has changes nothing.
\<close>

theorem update_toggle_frame_witness:
  "updateOutput ''poster'' (Set_width 500) two_outputs ! 1 = two_outputs ! 1 \<and>
   toggleFormat ''poster'' ''svg'' two_outputs ! 1 = two_outputs ! 1 \<and>
   read_field F_height (updateOutput ''poster'' (Set_width 500) two_outputs ! 0) =
     Set_height 1350 \<and>
   read_field F_height (toggleFormat ''poster'' ''svg'' two_outputs ! 0) = Set_height 1350 \<and>
   updateOutput ''flyer'' (Set_width 500) two_outputs = two_outputs \<and>
   toggleFormat ''flyer'' ''svg'' two_outputs = two_outputs"
proof -
  have len: "length two_outputs = 2"
    by (simp add: two_outputs_def initial_outputs_def)
  have ids: "id' (two_outputs ! 0) = ''poster''" "id' (two_outputs ! 1) \<noteq> ''poster''"
    "''flyer'' \<notin> id' ` set two_outputs" "read_field F_height (two_outputs ! 0) = Set_height 1350"
    by (simp_all add: two_outputs_def initial_outputs_def)
  note frame = update_toggle_frame [of "''poster''" "Set_width 500" two_outputs "''svg''"]
  note absent = update_toggle_frame [of "''flyer''" "Set_width 500" two_outputs "''svg''"]
  have A: "\<forall>k < length two_outputs. id' (two_outputs ! k) \<noteq> ''poster'' \<longrightarrow>
      updateOutput ''poster'' (Set_width 500) two_outputs ! k = two_outputs ! k \<and>
      toggleFormat ''poster'' ''svg'' two_outputs ! k = two_outputs ! k"
    using frame by (elim conjE)
  have B: "\<forall>k < length two_outputs. \<forall>n. id' (two_outputs ! k) = ''poster'' \<longrightarrow>
      (n \<noteq> field_of (Set_width 500) \<longrightarrow>
         read_field n (updateOutput ''poster'' (Set_width 500) two_outputs ! k) =
         read_field n (two_outputs ! k)) \<and>
      (n \<noteq> F_formats \<longrightarrow>
         read_field n (toggleFormat ''poster'' ''svg'' two_outputs ! k) =
         read_field n (two_outputs ! k))"
    using frame by (elim conjE)
  have C: "''flyer'' \<notin> id' ` set two_outputs \<longrightarrow>
      updateOutput ''flyer'' (Set_width 500) two_outputs = two_outputs \<and>
      toggleFormat ''flyer'' ''svg'' two_outputs = two_outputs"
    using absent by (elim conjE)
  have a: "updateOutput ''poster'' (Set_width 500) two_outputs ! 1 = two_outputs ! 1"
    "toggleFormat ''poster'' ''svg'' two_outputs ! 1 = two_outputs ! 1"
    using A [rule_format, of 1] len ids(2) by simp_all
  have b: "read_field F_height (updateOutput ''poster'' (Set_width 500) two_outputs ! 0) =
      Set_height 1350"
    "read_field F_height (toggleFormat ''poster'' ''svg'' two_outputs ! 0) = Set_height 1350"
    using B [rule_format, of 0 F_height] len ids(1,4) by simp_all
  have c: "updateOutput ''flyer'' (Set_width 500) two_outputs = two_outputs"
    "toggleFormat ''flyer'' ''svg'' two_outputs = two_outputs"
    using C ids(3) by simp_all
  from a b c show ?thesis by simp
qed

lemma removeOutput_distinct:
  "distinct (map id' registry) \<Longrightarrow> distinct (map id' (removeOutput i registry))"
  by (simp add: removeOutput_def distinct_map_filter)

text \<open>
  With unique ids, a click on Remove takes away at most one entry, and only of a registry
  that has at least two.
\<close>

lemma Remove_onClick_guard:
  assumes "registry \<noteq> []" and "distinct (map id' registry)"
  shows "1 \<le> length (Remove_onClick i registry) \<and>
         distinct (map id' (Remove_onClick i registry))"
proof -
  have "1 \<le> length (Remove_onClick i registry)"
  proof (cases registry)
    case Nil
    with assms(1) show ?thesis by simp
  next
    case (Cons a rest)
    note reg = this
    show ?thesis
    proof (cases rest)
      case Nil
      with reg show ?thesis by (simp add: Remove_onClick_def)
    next
      case (Cons b rest')
      with reg assms(2) have "id' a \<noteq> id' b" by auto
      then have "id' a \<noteq> i \<or> id' b \<noteq> i" by auto
      with Cons reg show ?thesis
        by (auto simp: Remove_onClick_def removeOutput_def)
    qed
  qed
  moreover have "distinct (map id' (Remove_onClick i registry))"
    using assms(2) by (simp add: Remove_onClick_def removeOutput_distinct)
  ultimately show ?thesis ..
qed

text \<open>
  The ids that \<open>addOutput\<close> makes: the decimal rendering of a clock reading has digits
  only and determines the reading, so two ids made at different readings differ, and
  both differ from the id of the initial entry.
\<close>

lemma decimal_nonempty: "decimal n \<noteq> []"
  by (subst decimal.simps) simp

lemma digit_in: "k < 10 \<Longrightarrow> ''0123456789'' ! k \<in> set ''0123456789''"
  by (rule nth_mem) simp

lemma decimal_digits: "set (decimal n) \<subseteq> set ''0123456789''"
proof (induction n rule: decimal.induct)
  case (1 n)
  show ?case
  proof (cases "n < 10")
    case True
    then show ?thesis using digit_in [of n] by (subst decimal.simps) simp
  next
    case False
    have "n mod 10 < 10" by simp
    then have "''0123456789'' ! (n mod 10) \<in> set ''0123456789''" by (rule digit_in)
    with False "1.IH" show ?thesis by (subst decimal.simps) simp
  qed
qed

lemma digit_inj: "j < 10 \<Longrightarrow> k < 10 \<Longrightarrow> ''0123456789'' ! j = ''0123456789'' ! k \<Longrightarrow> j = k"
proof -
  assume "j < 10" "k < 10" "''0123456789'' ! j = ''0123456789'' ! k"
  moreover have "distinct ''0123456789''" by simp
  ultimately show "j = k" by (simp add: nth_eq_iff_index_eq)
qed

lemma decimal_inj: "decimal m = decimal n \<Longrightarrow> m = n"
proof (induction m arbitrary: n rule: decimal.induct)
  case (1 m)
  show ?case
  proof (cases "m < 10")
    case m: True
    show ?thesis
    proof (cases "n < 10")
      case True
      with m "1.prems" have "''0123456789'' ! m = ''0123456789'' ! n"
        by (simp add: decimal.simps [of m] decimal.simps [of n])
      with m True show ?thesis by (rule digit_inj)
    next
      case False
      with m "1.prems" have "decimal (n div 10) = []"
        by (simp add: decimal.simps [of m] decimal.simps [of n])
      then show ?thesis by (simp add: decimal_nonempty)
    qed
  next
    case m: False
    show ?thesis
    proof (cases "n < 10")
      case True
      with m "1.prems" have "decimal (m div 10) = []"
        by (simp add: decimal.simps [of m] decimal.simps [of n])
      then show ?thesis by (simp add: decimal_nonempty)
    next
      case False
      with m "1.prems" have a: "decimal (m div 10) = decimal (n div 10)"
        and b: "''0123456789'' ! (m mod 10) = ''0123456789'' ! (n mod 10)"
        by (simp_all add: decimal.simps [of m] decimal.simps [of n])
      from a m have "m div 10 = n div 10" by (rule "1.IH" [rotated])
      moreover have "m mod 10 = n mod 10"
        using b by (intro digit_inj) simp_all
      ultimately show ?thesis by (metis div_mult_mod_eq)
    qed
  qed
qed

lemma underscore_not_digit: "CHR ''_'' \<notin> set (decimal n)"
  using decimal_digits [of n] by auto

lemma stamp_id: "stamp (t @ ''_'' @ decimal n) = decimal n"
proof -
  have "takeWhile (\<lambda>c. c \<noteq> CHR ''_'') (rev (decimal n) @ CHR ''_'' # rev t) =
        rev (decimal n) @ takeWhile (\<lambda>c. c \<noteq> CHR ''_'') (CHR ''_'' # rev t)"
    by (rule takeWhile_append2) (use underscore_not_digit [of n] in auto)
  then show ?thesis by (simp add: stamp_def)
qed

lemma new_id_fresh: "m \<noteq> n \<Longrightarrow> t @ ''_'' @ decimal m \<noteq> t' @ ''_'' @ decimal n"
  using stamp_id [of t m] stamp_id [of t' n] decimal_inj [of m n] by auto

lemma new_id_not_poster: "t @ ''_'' @ decimal m \<noteq> ''poster''"
proof
  assume "t @ ''_'' @ decimal m = ''poster''"
  then have "CHR ''_'' \<in> set ''poster''" by (metis in_set_conv_decomp append_Cons append_Nil)
  then show False by simp
qed

lemma updateOutput_ids:
  "field_of fv \<noteq> F_id \<Longrightarrow> map id' (updateOutput i fv registry) = map id' registry"
  by (cases fv) (simp_all add: updateOutput_def)

lemma toggleFormat_ids: "map id' (toggleFormat i f registry) = map id' registry"
  by (simp add: toggleFormat_def)

lemma stamped_subset:
  "stamped used ids \<Longrightarrow> ids' \<noteq> [] \<Longrightarrow> distinct ids' \<Longrightarrow> set ids' \<subseteq> set ids \<Longrightarrow>
   stamped used ids'"
  unfolding stamped_def by blast

lemma stamped_mono: "stamped used ids \<Longrightarrow> used \<subseteq> used' \<Longrightarrow> stamped used' ids"
  unfolding stamped_def by blast

lemma stamped_op:
  assumes "stamped used (map id' registry)" and "set (add_times [op]) \<inter> used = {}"
  shows "stamped (used \<union> set (add_times [op])) (map id' (apply_op op registry))"
proof (cases op)
  case (Add t now)
  with assms(2) have fresh: "now \<notin> used" by simp
  show ?thesis
  proof (cases "addOutput t now registry")
    case (Inl e)
    with Add assms(1) show ?thesis by (auto intro: stamped_mono)
  next
    case (Inr registry')
    then have ids: "map id' registry' = map id' registry @ [t @ ''_'' @ decimal now]"
      by (auto simp: addOutput_def split: option.splits)
    have new: "t @ ''_'' @ decimal now \<notin> set (map id' registry)"
    proof
      assume "t @ ''_'' @ decimal now \<in> set (map id' registry)"
      with assms(1) have "t @ ''_'' @ decimal now = ''poster'' \<or>
          (\<exists>t' n. n \<in> used \<and> t @ ''_'' @ decimal now = t' @ ''_'' @ decimal n)"
        unfolding stamped_def by blast
      then show False
      proof
        assume "t @ ''_'' @ decimal now = ''poster''"
        then show False by (rule new_id_not_poster [THEN notE])
      next
        assume "\<exists>t' n. n \<in> used \<and> t @ ''_'' @ decimal now = t' @ ''_'' @ decimal n"
        then obtain t' n where "n \<in> used" "t @ ''_'' @ decimal now = t' @ ''_'' @ decimal n"
          by blast
        with fresh new_id_fresh [of now n t t'] show False by blast
      qed
    qed
    have "stamped (used \<union> {now}) (map id' registry @ [t @ ''_'' @ decimal now])"
      unfolding stamped_def
    proof (intro conjI ballI)
      show "map id' registry @ [t @ ''_'' @ decimal now] \<noteq> []" by simp
      show "distinct (map id' registry @ [t @ ''_'' @ decimal now])"
        using assms(1) new by (simp add: stamped_def)
      fix i assume "i \<in> set (map id' registry @ [t @ ''_'' @ decimal now])"
      then have "i \<in> set (map id' registry) \<or> i = t @ ''_'' @ decimal now" by auto
      then show "i = ''poster'' \<or> (\<exists>t n. n \<in> used \<union> {now} \<and> i = t @ ''_'' @ decimal n)"
      proof
        assume "i \<in> set (map id' registry)"
        with assms(1) show ?thesis unfolding stamped_def by blast
      next
        assume "i = t @ ''_'' @ decimal now"
        then show ?thesis by blast
      qed
    qed
    with Add Inr ids show ?thesis by simp
  qed
next
  case (Edit_width i p)
  with assms(1) show ?thesis
    by (simp add: width_onChange_def updateOutput_ids)
next
  case (Edit_height i p)
  with assms(1) show ?thesis
    by (simp add: height_onChange_def updateOutput_ids)
next
  case (Toggle i f)
  with assms(1) show ?thesis
    by (simp add: toggleFormat_ids)
next
  case (Check i checked)
  with assms(1) show ?thesis
    by (simp add: updateOutput_ids)
next
  case (Choose_language i v)
  with assms(1) show ?thesis
    by (simp add: updateOutput_ids)
next
  case (Switch_print i checked)
  with assms(1) show ?thesis
    by (simp add: updateOutput_ids)
next
  case (Remove i)
  from assms(1) have "registry \<noteq> []" "distinct (map id' registry)"
    by (simp_all add: stamped_def)
  then have "1 \<le> length (Remove_onClick i registry) \<and>
         distinct (map id' (Remove_onClick i registry))"
    by (rule Remove_onClick_guard)
  then have "map id' (Remove_onClick i registry) \<noteq> []"
    and "distinct (map id' (Remove_onClick i registry))"
    by auto
  moreover have "set (map id' (Remove_onClick i registry)) \<subseteq> set (map id' registry)"
    by (auto simp: Remove_onClick_def removeOutput_def)
  ultimately have "stamped used (map id' (Remove_onClick i registry))"
    by (rule stamped_subset [OF assms(1)])
  with Remove show ?thesis by simp
qed

lemma add_times_Cons: "add_times (op # ops) = add_times [op] @ add_times ops"
  by (cases op) simp_all

lemma stamped_ops:
  "stamped used (map id' registry) \<Longrightarrow> distinct (add_times ops) \<Longrightarrow>
   set (add_times ops) \<inter> used = {} \<Longrightarrow>
   stamped (used \<union> set (add_times ops)) (map id' (apply_ops ops registry))"
proof (induction ops arbitrary: used registry)
  case Nil
  then show ?case by (simp add: apply_ops_def)
next
  case (Cons op ops)
  have split: "add_times (op # ops) = add_times [op] @ add_times ops" by (rule add_times_Cons)
  from Cons.prems(3) split have a: "set (add_times [op]) \<inter> used = {}" by auto
  with Cons.prems(1) have s: "stamped (used \<union> set (add_times [op])) (map id' (apply_op op registry))"
    by (rule stamped_op)
  from Cons.prems(2,3) split have "distinct (add_times ops)"
    and "set (add_times ops) \<inter> (used \<union> set (add_times [op])) = {}"
    by auto
  with s have "stamped (used \<union> set (add_times [op]) \<union> set (add_times ops))
     (map id' (apply_ops ops (apply_op op registry)))"
    by (rule Cons.IH)
  then show ?case by (simp add: apply_ops_def split Un_assoc)
qed

lemma registry_ids:
  assumes "distinct (add_times ops)"
  shows "apply_ops ops initial_outputs \<noteq> [] \<and>
         distinct (map id' (apply_ops ops initial_outputs))"
proof -
  have "stamped {} (map id' initial_outputs)" by (simp add: stamped_def initial_outputs_def)
  from this assms
  have "stamped ({} \<union> set (add_times ops)) (map id' (apply_ops ops initial_outputs))"
    by (rule stamped_ops) simp
  then show ?thesis by (auto simp: stamped_def)
qed

text \<open>
  A click on Remove empties the registry exactly when there are at least two entries and
  all of them carry the id of the button's output.
\<close>

lemma Remove_onClick_empty:
  "Remove_onClick i registry = [] \<longleftrightarrow>
     registry = [] \<or> (1 < length registry \<and> set (map id' registry) = {i})"
proof (cases "1 < length registry")
  case True
  then have ne: "registry \<noteq> []" by auto
  have "Remove_onClick i registry = [] \<longleftrightarrow> (\<forall>x \<in> set registry. id' x = i)"
    using True by (simp add: Remove_onClick_def removeOutput_def filter_empty_conv)
  also have "\<dots> \<longleftrightarrow> set (map id' registry) = {i}"
    using ne by (cases registry) auto
  finally show ?thesis using True ne by simp
next
  case False
  then show ?thesis by (simp add: Remove_onClick_def)
qed

text \<open>
  Claim C5 does not hold as written. Two banners added at the same clock reading 42 get
  the same id \<open>banner_42\<close>. After the poster is removed the registry holds these two
  entries, so each has its Remove button; a click on one of them filters out both, and
  the registry is empty.
\<close>

theorem equal_ids_removed_together:
  "map id' (apply_ops [Add ''banner'' 42, Add ''banner'' 42, Remove ''poster'']
              initial_outputs) = [''banner_42'', ''banner_42''] \<and>
   apply_ops [Add ''banner'' 42, Add ''banner'' 42, Remove ''poster'', Remove ''banner_42'']
     initial_outputs = []"
  by (simp add: apply_ops_def addOutput_def OUTPUT_TYPES_def initial_outputs_def
      Remove_onClick_def removeOutput_def decimal.simps)

text \<open>
  Claim C5, amended. The Remove button exists only while the registry has more than one
  entry, and \<open>removeOutput\<close> takes away every entry with the id of the button's output.
  So a click on Remove leaves a registry without entries exactly when the registry had
  none, or had more than one and all of them with the id removed. In particular, a
  registry that has an entry and whose ids are pairwise different has an entry
  afterwards, and its ids stay different. The ids are pairwise different in every
  registry that the panel reaches from the initial one when no two adds read the same
  clock value: then at least one output exists after any sequence of operations,
  removals included. \<open>removeOutput\<close> itself has no guard; the guard is the condition under
  which the button is rendered.
\<close>

theorem Remove_onClick_keeps_one:
  "(Remove_onClick i registry = [] \<longleftrightarrow>
      registry = [] \<or> (1 < length registry \<and> set (map id' registry) = {i})) \<and>
   (registry \<noteq> [] \<and> distinct (map id' registry) \<longrightarrow>
      1 \<le> length (Remove_onClick i registry) \<and>
      distinct (map id' (Remove_onClick i registry))) \<and>
   (distinct (add_times ops) \<longrightarrow>
      1 \<le> length (apply_ops ops initial_outputs) \<and>
      1 \<le> length (Remove_onClick i (apply_ops ops initial_outputs)))"
proof (intro conjI impI)
  show "Remove_onClick i registry = [] \<longleftrightarrow>
      registry = [] \<or> (1 < length registry \<and> set (map id' registry) = {i})"
    by (rule Remove_onClick_empty)
next
  assume "registry \<noteq> [] \<and> distinct (map id' registry)"
  then show "1 \<le> length (Remove_onClick i registry)"
    and "distinct (map id' (Remove_onClick i registry))"
    using Remove_onClick_guard [of registry i] by simp_all
next
  assume "distinct (add_times ops)"
  then have r: "apply_ops ops initial_outputs \<noteq> []"
    "distinct (map id' (apply_ops ops initial_outputs))"
    using registry_ids [of ops] by simp_all
  from r(1) show "1 \<le> length (apply_ops ops initial_outputs)"
    by (cases "apply_ops ops initial_outputs") simp_all
  from r show "1 \<le> length (Remove_onClick i (apply_ops ops initial_outputs))"
    using Remove_onClick_guard [of "apply_ops ops initial_outputs" i] by simp
qed

text \<open>
  The poster can be removed from the registry of two entries, and then the banner that is
  left has no Remove button any more; the same on the page, where the banner was added at
  the clock reading 1700000000000.
\<close>

theorem Remove_onClick_keeps_one_witness:
  "two_outputs \<noteq> [] \<and> distinct (map id' two_outputs) \<and>
   1 \<le> length (Remove_onClick ''poster'' two_outputs) \<and>
   Remove_onClick ''poster'' two_outputs \<noteq> [] \<and>
   map id' (Remove_onClick ''banner_1700000000000'' (Remove_onClick ''poster'' two_outputs)) =
     [''banner_1700000000000''] \<and>
   distinct (add_times [Add ''banner'' 1700000000000, Remove ''poster'']) \<and>
   1 \<le> length (Remove_onClick ''banner_1700000000000''
                  (apply_ops [Add ''banner'' 1700000000000, Remove ''poster''] initial_outputs))"
proof -
  have h: "two_outputs \<noteq> [] \<and> distinct (map id' two_outputs)"
    by (simp add: two_outputs_def initial_outputs_def)
  have d: "distinct (add_times [Add ''banner'' 1700000000000, Remove ''poster''])"
    by simp
  have s: "set (map id' two_outputs) \<noteq> {''poster''}"
    by (simp add: two_outputs_def initial_outputs_def)
  have m: "map id' (Remove_onClick ''banner_1700000000000'' (Remove_onClick ''poster'' two_outputs)) =
     [''banner_1700000000000'']"
    by (simp add: two_outputs_def initial_outputs_def Remove_onClick_def removeOutput_def)
  note a = Remove_onClick_keeps_one [of "''poster''" two_outputs
      "[Add ''banner'' 1700000000000, Remove ''poster'']"]
  note b = Remove_onClick_keeps_one [of "''banner_1700000000000''" two_outputs
      "[Add ''banner'' 1700000000000, Remove ''poster'']"]
  from a h s have "Remove_onClick ''poster'' two_outputs \<noteq> []" by blast
  moreover from a h have "1 \<le> length (Remove_onClick ''poster'' two_outputs)" by blast
  moreover from b d have "1 \<le> length (Remove_onClick ''banner_1700000000000''
      (apply_ops [Add ''banner'' 1700000000000, Remove ''poster''] initial_outputs))"
    by blast
  ultimately show ?thesis using h d m by blast
qed

text \<open>
  Claim C6 does not hold as written. Clearing the width input of the initial poster makes
  \<open>parseInt\<close> return \<open>NaN\<close>, and the handler stores \<open>NaN || 0\<close>, that is 0; typing 0
  stores 0; typing -5 stores -5. The height input does the same.
\<close>

theorem size_edits_store_non_positive:
  "map width (apply_ops [Edit_width ''poster'' NaN] initial_outputs) = [0] \<and>
   map width (apply_ops [Edit_width ''poster'' (Num 0)] initial_outputs) = [0] \<and>
   map width (apply_ops [Edit_width ''poster'' (Num (- 5))] initial_outputs) = [- 5] \<and>
   map height (apply_ops [Edit_height ''poster'' NaN] initial_outputs) = [0] \<and>
   map height (apply_ops [Edit_height ''poster'' (Num 0)] initial_outputs) = [0] \<and>
   map height (apply_ops [Edit_height ''poster'' (Num (- 5))] initial_outputs) = [- 5]"
  by (simp add: apply_ops_def width_onChange_def height_onChange_def updateOutput_def
      initial_outputs_def)

lemma apply_op_positive:
  assumes "list_all positive_size registry" and "positive_edit op"
  shows "list_all positive_size (apply_op op registry)"
proof (cases op)
  case (Add t now)
  with assms(1) show ?thesis
    by (auto simp: addOutput_def OUTPUT_TYPES_def positive_size_def
             split: option.splits if_splits)
next
  case (Edit_width i p)
  with assms show ?thesis
    by (cases p) (auto simp: width_onChange_def updateOutput_def positive_size_def list_all_iff)
next
  case (Edit_height i p)
  with assms show ?thesis
    by (cases p) (auto simp: height_onChange_def updateOutput_def positive_size_def list_all_iff)
next
  case (Toggle i f)
  with assms(1) show ?thesis
    by (auto simp: toggleFormat_def positive_size_def list_all_iff)
next
  case (Remove i)
  with assms(1) show ?thesis
    by (auto simp: Remove_onClick_def removeOutput_def list_all_iff)
next
  case (Check i checked)
  with assms(1) show ?thesis
    by (auto simp: updateOutput_def positive_size_def list_all_iff)
next
  case (Choose_language i v)
  with assms(1) show ?thesis
    by (auto simp: updateOutput_def positive_size_def list_all_iff)
next
  case (Switch_print i checked)
  with assms(1) show ?thesis
    by (auto simp: updateOutput_def positive_size_def list_all_iff)
qed

text \<open>What an edit of a size input stores, and where.\<close>

lemma width_edit_stores:
  "map width (apply_op (Edit_width i p) registry) =
     map (\<lambda>x. if id' x = i then or_zero p else width x) registry"
  by (simp add: width_onChange_def updateOutput_def)

lemma height_edit_stores:
  "map height (apply_op (Edit_height i p) registry) =
     map (\<lambda>x. if id' x = i then or_zero p else height x) registry"
  by (simp add: height_onChange_def updateOutput_def)

lemma positive_widths:
  "list_all positive_size registry \<Longrightarrow> w \<in> set (map width registry) \<Longrightarrow> 0 < w"
  by (auto simp: list_all_iff positive_size_def)

lemma positive_heights:
  "list_all positive_size registry \<Longrightarrow> h \<in> set (map height registry) \<Longrightarrow> 0 < h"
  by (auto simp: list_all_iff positive_size_def)

lemma non_positive_width_edit:
  assumes "\<not> positive_edit (Edit_width i p)" and "i \<in> set (map id' registry)"
  shows "\<not> list_all positive_size (apply_op (Edit_width i p) registry)"
proof
  assume pos: "list_all positive_size (apply_op (Edit_width i p) registry)"
  from assms(1) have le: "or_zero p \<le> 0" by (cases p) auto
  from assms(2) obtain x where x: "x \<in> set registry" "id' x = i" by auto
  then have "or_zero p \<in> (\<lambda>x. if id' x = i then or_zero p else width x) ` set registry"
    by (rule_tac x = x in image_eqI) simp_all
  then have "or_zero p \<in> set (map width (apply_op (Edit_width i p) registry))"
    by (simp only: width_edit_stores set_map)
  with pos have "0 < or_zero p" by (rule positive_widths)
  with le show False by simp
qed

lemma non_positive_height_edit:
  assumes "\<not> positive_edit (Edit_height i p)" and "i \<in> set (map id' registry)"
  shows "\<not> list_all positive_size (apply_op (Edit_height i p) registry)"
proof
  assume pos: "list_all positive_size (apply_op (Edit_height i p) registry)"
  from assms(1) have le: "or_zero p \<le> 0" by (cases p) auto
  from assms(2) obtain x where x: "x \<in> set registry" "id' x = i" by auto
  then have "or_zero p \<in> (\<lambda>x. if id' x = i then or_zero p else height x) ` set registry"
    by (rule_tac x = x in image_eqI) simp_all
  then have "or_zero p \<in> set (map height (apply_op (Edit_height i p) registry))"
    by (simp only: height_edit_stores set_map)
  with pos have "0 < or_zero p" by (rule positive_heights)
  with le show False by simp
qed

text \<open>
  Claim C6, amended. The entry that \<open>addOutput\<close> creates has the positive default size of
  its type, and the other operations that are not size edits keep every size. So after
  any sequence of operations of the panel in which every size edit parses to a positive
  integer, every entry of a registry whose sizes were positive has positive width and
  height. An edit of a width or height input stores \<open>parseInt(text) || 0\<close> in the
  entries with the id of the input: 0 when \<open>parseInt\<close> returned \<open>NaN\<close>, and the number
  itself otherwise, be it zero or negative. Hence an edit that does not parse to a
  positive integer, on an id that the registry has, always leaves an entry whose size is
  not positive.
\<close>

theorem sizes_stay_positive:
  "(list_all positive_size registry \<and> list_all positive_edit ops \<longrightarrow>
      list_all positive_size (apply_ops ops registry)) \<and>
   map width (apply_op (Edit_width i NaN) registry) =
     map (\<lambda>x. if id' x = i then 0 else width x) registry \<and>
   map width (apply_op (Edit_width i (Num n)) registry) =
     map (\<lambda>x. if id' x = i then n else width x) registry \<and>
   map height (apply_op (Edit_height i NaN) registry) =
     map (\<lambda>x. if id' x = i then 0 else height x) registry \<and>
   map height (apply_op (Edit_height i (Num n)) registry) =
     map (\<lambda>x. if id' x = i then n else height x) registry \<and>
   (i \<in> set (map id' registry) \<and> \<not> positive_edit (Edit_width i p) \<longrightarrow>
      \<not> list_all positive_size (apply_op (Edit_width i p) registry)) \<and>
   (i \<in> set (map id' registry) \<and> \<not> positive_edit (Edit_height i p) \<longrightarrow>
      \<not> list_all positive_size (apply_op (Edit_height i p) registry))"
proof (intro conjI impI)
  assume "list_all positive_size registry \<and> list_all positive_edit ops"
  then show "list_all positive_size (apply_ops ops registry)"
    unfolding apply_ops_def
    by (induction ops arbitrary: registry) (simp_all add: apply_op_positive)
next
  show "map width (apply_op (Edit_width i NaN) registry) =
     map (\<lambda>x. if id' x = i then 0 else width x) registry"
    using width_edit_stores [of i NaN registry] by simp
  show "map width (apply_op (Edit_width i (Num n)) registry) =
     map (\<lambda>x. if id' x = i then n else width x) registry"
    using width_edit_stores [of i "Num n" registry] by simp
  show "map height (apply_op (Edit_height i NaN) registry) =
     map (\<lambda>x. if id' x = i then 0 else height x) registry"
    using height_edit_stores [of i NaN registry] by simp
  show "map height (apply_op (Edit_height i (Num n)) registry) =
     map (\<lambda>x. if id' x = i then n else height x) registry"
    using height_edit_stores [of i "Num n" registry] by simp
next
  assume "i \<in> set (map id' registry) \<and> \<not> positive_edit (Edit_width i p)"
  then show "\<not> list_all positive_size (apply_op (Edit_width i p) registry)"
    using non_positive_width_edit [of i p registry] by blast
next
  assume "i \<in> set (map id' registry) \<and> \<not> positive_edit (Edit_height i p)"
  then show "\<not> list_all positive_size (apply_op (Edit_height i p) registry)"
    using non_positive_height_edit [of i p registry] by blast
qed

text \<open>
  On the initial registry: a sequence with positive size edits keeps the sizes positive;
  a width of 0 typed into the poster, or its height input cleared, does not.
\<close>

theorem sizes_stay_positive_witness:
  "list_all positive_size initial_outputs \<and>
   list_all positive_edit
     [Add ''banner'' 1700000000000, Edit_width ''poster'' (Num 800), Toggle ''poster'' ''svg'',
      Edit_height ''poster'' (Num 600), Remove ''poster''] \<and>
   list_all positive_size
     (apply_ops [Add ''banner'' 1700000000000, Edit_width ''poster'' (Num 800),
                 Toggle ''poster'' ''svg'', Edit_height ''poster'' (Num 600), Remove ''poster'']
        initial_outputs) \<and>
   ''poster'' \<in> set (map id' initial_outputs) \<and>
   \<not> list_all positive_size (apply_op (Edit_width ''poster'' (Num 0)) initial_outputs) \<and>
   \<not> list_all positive_size (apply_op (Edit_height ''poster'' NaN) initial_outputs)"
proof -
  let ?ops = "[Add ''banner'' 1700000000000, Edit_width ''poster'' (Num 800),
     Toggle ''poster'' ''svg'', Edit_height ''poster'' (Num 600), Remove ''poster'']"
  have a: "list_all positive_size initial_outputs"
    by (simp add: initial_outputs_def positive_size_def)
  have b: "list_all positive_edit ?ops"
    by simp
  have c: "''poster'' \<in> set (map id' initial_outputs)"
    by (simp add: initial_outputs_def)
  have w: "\<not> positive_edit (Edit_width ''poster'' (Num 0))"
    and h: "\<not> positive_edit (Edit_height ''poster'' NaN)"
    by simp_all
  from a b sizes_stay_positive [of initial_outputs ?ops]
  have "list_all positive_size (apply_ops ?ops initial_outputs)" by blast
  moreover from c w sizes_stay_positive [of initial_outputs "[]" "''poster''" 0 "Num 0"]
  have "\<not> list_all positive_size (apply_op (Edit_width ''poster'' (Num 0)) initial_outputs)"
    by blast
  moreover from c h sizes_stay_positive [of initial_outputs "[]" "''poster''" 0 NaN]
  have "\<not> list_all positive_size (apply_op (Edit_height ''poster'' NaN) initial_outputs)"
    by blast
  ultimately show ?thesis using a b c by blast
qed

section \<open>handleGenerate: the two checks and the request\<close>

text \<open>
  Claim C3. When the job id is missing (\<open>null\<close> or empty), whatever the outputs are,
  \<open>handleGenerate\<close> shows the toast that asks for an upload and returns; when a job id
  is there and no output is enabled it shows the toast that asks to enable an output and
  returns. In both cases the page state is the one it was called in and no request has
  been sent. The check of the job id comes first, so it names the reason when both fail.
\<close>

theorem handleGenerate_rejects:
  "(\<not> truthy (jobId s) \<longrightarrow>
      handleGenerate s = Returned s [Toast Error ''Please upload an image first''] \<and>
      network_calls (outcome_log (handleGenerate s)) = []) \<and>
   (truthy (jobId s) \<and> list_all (\<lambda>x. \<not> enabled x) (outputs s) \<longrightarrow>
      handleGenerate s = Returned s [Toast Error ''Please enable at least one output type''] \<and>
      network_calls (outcome_log (handleGenerate s)) = [])"
  by (auto simp: handleGenerate_def network_calls_def list_all_iff filter_empty_conv)

theorem handleGenerate_rejects_witness:
  "handleGenerate (initial_page\<lparr>outputs := updateOutput ''poster'' (Set_enabled False) initial_outputs\<rparr>) =
     Returned (initial_page\<lparr>outputs := updateOutput ''poster'' (Set_enabled False) initial_outputs\<rparr>)
       [Toast Error ''Please upload an image first''] \<and>
   handleGenerate (uploaded_page\<lparr>outputs := updateOutput ''poster'' (Set_enabled False) initial_outputs\<rparr>) =
     Returned (uploaded_page\<lparr>outputs := updateOutput ''poster'' (Set_enabled False) initial_outputs\<rparr>)
       [Toast Error ''Please enable at least one output type'']"
proof -
  let ?off = "updateOutput ''poster'' (Set_enabled False) initial_outputs"
  have a: "\<not> truthy (jobId (initial_page\<lparr>outputs := ?off\<rparr>))"
    by (simp add: initial_page_def)
  have b: "truthy (jobId (uploaded_page\<lparr>outputs := ?off\<rparr>)) \<and>
           list_all (\<lambda>x. \<not> enabled x) (outputs (uploaded_page\<lparr>outputs := ?off\<rparr>))"
    by (simp add: uploaded_page_def initial_page_def updateOutput_def initial_outputs_def)
  from a b handleGenerate_rejects [of "initial_page\<lparr>outputs := ?off\<rparr>"]
    handleGenerate_rejects [of "uploaded_page\<lparr>outputs := ?off\<rparr>"]
  show ?thesis by blast
qed

text \<open>
  Claim C7 does not hold as written: with all three formats of the initial poster
  unticked, Generate is accepted and the request carries the poster with an empty
  \<open>formats\<close> array.
\<close>

theorem request_with_empty_formats:
  "map request_formats
     (submitted (handleGenerate (uploaded_page\<lparr>outputs :=
        toggleFormat ''poster'' ''pdf'' (toggleFormat ''poster'' ''jpeg''
          (toggleFormat ''poster'' ''png'' initial_outputs))\<rparr>))) = [[[]]]"
  by (simp add: submitted_def handleGenerate_def uploaded_page_def initial_page_def
      toggleFormat_def initial_outputs_def wire_def Let_def request_formats_def)

text \<open>
  Claim C7, amended. An accepted submission sends exactly one request; it carries the job
  id of the page, the global settings, and the enabled outputs of the registry in their
  order, of which there is at least one, each with the \<open>formats\<close> array it has in the
  registry at that moment, empty or not.
\<close>

theorem accepted_request:
  "handleGenerate s = Suspended r \<Longrightarrow>
   submitted (handleGenerate s) =
     [\<lparr>job_id = closure_jobId r, request_outputs = map wire (filter enabled (outputs s)),
       request_settings = globalSettings s\<rparr>] \<and>
   jobId s = Some (closure_jobId r) \<and>
   filter enabled (outputs s) \<noteq> [] \<and>
   map out_formats (map wire (filter enabled (outputs s))) =
     map formats (filter enabled (outputs s))"
  by (cases "jobId s")
     (auto simp: handleGenerate_def submitted_def Let_def wire_def split: if_splits)

theorem accepted_request_witness:
  "map job_id (submitted (handleGenerate uploaded_page)) = [''J1''] \<and>
   map request_formats (submitted (handleGenerate uploaded_page)) =
     [[[''png'', ''jpeg'', ''pdf'']]]"
proof -
  obtain r where r: "handleGenerate uploaded_page = Suspended r" "closure_jobId r = ''J1''"
    by (simp add: handleGenerate_def uploaded_page_def initial_page_def initial_outputs_def
        Let_def)
  from accepted_request [OF r(1)] r(2) show ?thesis
    by (simp add: uploaded_page_def initial_page_def initial_outputs_def request_formats_def)
qed

section \<open>handleGenerate: polling and the timeout\<close>

lemma toasts_append: "toasts (xs @ ys) = toasts xs @ toasts ys"
  by (simp add: toasts_def)

lemma toasts_queries: "toasts (replicate n (Get_job j)) = []"
  by (induction n) (simp_all add: toasts_def)

lemma steps_append: "steps (es @ es') r = steps es' (steps es r)"
  by (simp add: steps_def)

lemma steps_Cons: "steps (e # es) r = steps es (step e r)"
  by (simp add: steps_def)

text \<open>A tick whose status query is answered with neither completed nor failed.\<close>

lemma pending_round:
  "pollInterval r = Active \<Longrightarrow> status p \<noteq> ''completed'' \<Longrightarrow> status p \<noteq> ''failed'' \<Longrightarrow>
   step (Job_resolved p) (step Interval_tick r) = r\<lparr>log := log r @ [Get_job (closure_jobId r)]\<rparr>"
  by simp

lemma pending_rounds:
  "pollInterval r = Active \<Longrightarrow> status p \<noteq> ''completed'' \<Longrightarrow> status p \<noteq> ''failed'' \<Longrightarrow>
   steps (concat (replicate n [Interval_tick, Job_resolved p])) r =
     r\<lparr>log := log r @ replicate n (Get_job (closure_jobId r))\<rparr>"
proof (induction n arbitrary: r)
  case 0
  then show ?case by (simp add: steps_def)
next
  case (Suc n)
  let ?r1 = "r\<lparr>log := log r @ [Get_job (closure_jobId r)]\<rparr>"
  have "steps (concat (replicate (Suc n) [Interval_tick, Job_resolved p])) r =
        steps (concat (replicate n [Interval_tick, Job_resolved p]))
          (step (Job_resolved p) (step Interval_tick r))"
    by (simp add: steps_def)
  also have "step (Job_resolved p) (step Interval_tick r) = ?r1"
    using Suc.prems by (rule pending_round)
  also have "steps (concat (replicate n [Interval_tick, Job_resolved p])) ?r1 =
        ?r1\<lparr>log := log ?r1 @ replicate n (Get_job (closure_jobId ?r1))\<rparr>"
    using Suc.prems by (intro Suc.IH) simp_all
  finally show ?case by (simp add: replicate_append_same)
qed

text \<open>
  The timeout callback of an invocation that captured \<open>isGenerating = false\<close>: it only
  clears the interval.
\<close>

lemma timeout_step_stale:
  "timeout_pending r \<Longrightarrow> \<not> closure_isGenerating r \<Longrightarrow>
   step Timeout_fired r =
     r\<lparr>timeout_pending := False, pollInterval := Cleared, log := log r @ [Clear_interval]\<rparr>"
  by (simp add: Let_def)

lemma closure_isGenerating_step: "closure_isGenerating (step e r) = closure_isGenerating r"
  by (cases e) (simp_all add: Let_def polling_catch_def)

lemma closure_isGenerating_steps: "closure_isGenerating (steps es r) = closure_isGenerating r"
  unfolding steps_def by (induction es arbitrary: r) (simp_all add: closure_isGenerating_step)

text \<open>
  The Generate button is disabled while \<open>isGenerating\<close> is true, so the handler runs in
  a render whose \<open>isGenerating\<close> is false, and that is the value its timeout callback
  tests. Whatever happened before, the timeout callback of such an invocation changes no
  state of the page and shows no toast.
\<close>

lemma timeout_callback_silent:
  assumes "\<not> isGenerating s" and "handleGenerate s = Suspended r"
  shows "page (step Timeout_fired (steps es r)) = page (steps es r)"
    and "toasts (log (step Timeout_fired (steps es r))) = toasts (log (steps es r))"
proof -
  from assms have "closure_isGenerating r = False"
    by (auto simp: handleGenerate_def Let_def split: if_splits)
  then have "closure_isGenerating (steps es r) = False"
    by (simp add: closure_isGenerating_steps)
  then show "page (step Timeout_fired (steps es r)) = page (steps es r)"
    and "toasts (log (step Timeout_fired (steps es r))) = toasts (log (steps es r))"
    by (simp_all add: Let_def toasts_def)
qed

text \<open>
  Claim C1, evaluated on the page after an upload: Generate is clicked, the POST is
  accepted, the 99 status queries of the ticks before the 300000 ms are each answered
  with \<open>pending\<close>, and the timeout fires. The interval is cleared, but \<open>isGenerating\<close> is
  still true and the only toast shown is the one of the start: the page does not reach a
  timed-out state and reports nothing.
\<close>

theorem timeout_leaves_generating:
  "map_option observe
     (run_events uploaded_page
        (Generate_resolved # concat (replicate 99 [Interval_tick, Job_resolved pending]) @
         [Timeout_fired])) =
   Some (True, Cleared, [Toast Success ''Generation started! This may take a moment...''])"
proof -
  define rounds where "rounds = concat (replicate 99 [Interval_tick, Job_resolved pending])"
  obtain r0 where r0: "start uploaded_page = Some r0"
    and c: "\<not> closure_isGenerating r0" "generate_pending r0" "isGenerating (page r0)"
      "toasts (log r0) = []"
    by (simp add: start_def handleGenerate_def uploaded_page_def initial_page_def
        initial_outputs_def Let_def toasts_def)
  define r1 where "r1 = step Generate_resolved r0"
  have r1: "pollInterval r1 = Active" "timeout_pending r1" "\<not> closure_isGenerating r1"
    "isGenerating (page r1)"
    "toasts (log r1) = [Toast Success ''Generation started! This may take a moment...'']"
    using c by (simp_all add: r1_def toasts_def)
  define r2 where "r2 = steps rounds r1"
  have "r2 = r1\<lparr>log := log r1 @ replicate 99 (Get_job (closure_jobId r1))\<rparr>"
    unfolding r2_def rounds_def
    by (rule pending_rounds) (simp_all add: r1 pending_def)
  then have r2: "timeout_pending r2" "\<not> closure_isGenerating r2" "isGenerating (page r2)"
    "toasts (log r2) = [Toast Success ''Generation started! This may take a moment...'']"
    using r1 by (simp_all add: toasts_append toasts_queries)
  define r3 where "r3 = step Timeout_fired r2"
  have "r3 = r2\<lparr>timeout_pending := False, pollInterval := Cleared,
                 log := log r2 @ [Clear_interval]\<rparr>"
    unfolding r3_def using r2(1,2) by (rule timeout_step_stale)
  then have r3: "isGenerating (page r3)" "pollInterval r3 = Cleared"
    "toasts (log r3) = [Toast Success ''Generation started! This may take a moment...'']"
    using r2 by (simp_all add: toasts_append) (simp add: toasts_def)
  have "steps (Generate_resolved # rounds @ [Timeout_fired]) r0 = r3"
    by (simp add: steps_Cons steps_append r3_def r2_def r1_def) (simp add: steps_def)
  then show ?thesis
    using r3 by (simp add: run_events_def r0 rounds_def observe_def)
qed

text \<open>
  Claim C4, evaluated on the page after an upload: Generate is clicked, the POST is
  accepted, the interval fires once and its status query is rejected. The interval is
  cleared and \<open>isGenerating\<close> is false again, so Generate can be clicked anew; the error
  goes to the console, and no toast tells the user: the only toast is the one of the
  start.
\<close>

theorem polling_error_shows_no_toast:
  "map_option observe
     (run_events uploaded_page [Generate_resolved, Interval_tick, Job_rejected]) =
   Some (False, Cleared, [Toast Success ''Generation started! This may take a moment...'']) \<and>
   map_option calls_after_submit
     (run_events uploaded_page [Generate_resolved, Interval_tick, Job_rejected]) =
   Some [Toast Success ''Generation started! This may take a moment...'',
         Set_interval 3000, Set_timeout 300000, Get_job ''J1'',
         Clear_interval, Console_error ''Polling error:'']"
  by (simp add: run_events_def start_def handleGenerate_def uploaded_page_def initial_page_def
      steps_def polling_catch_def toasts_def initial_outputs_def Let_def observe_def
      calls_after_submit_def)

text \<open>
  Claim C2 does not hold as written. The interval fires twice before the first status
  query is answered; the first answer is \<open>completed\<close>, the assets arrive, the page shows
  them and the toast of success, and the interval is cleared. The answer to the second
  query, \<open>completed\<close> as well, is then still processed: the callback clears the interval
  again and fetches the assets a second time.
\<close>

theorem answer_processed_after_completion:
  "map_option observe
     (run_events uploaded_page [Generate_resolved, Interval_tick, Interval_tick,
        Job_resolved completed, Assets_resolved [poster_png]]) =
   Some (False, Cleared, [Toast Success ''Generation started! This may take a moment...'',
       Toast Success ''Generated 1 assets successfully!'']) \<and>
   map_option (appended (Job_resolved completed))
     (run_events uploaded_page [Generate_resolved, Interval_tick, Interval_tick,
        Job_resolved completed, Assets_resolved [poster_png]]) =
   Some [Clear_interval, Get_assets ''J1'']"
  by (simp add: run_events_def start_def handleGenerate_def uploaded_page_def initial_page_def
      steps_def toasts_def initial_outputs_def Let_def completed_def decimal.simps
      observe_def appended_def)

text \<open>
  While the POST is pending nothing else is: no interval, no timeout, no status query, no
  asset fetch.
\<close>

lemma waiting_step:
  assumes "generate_pending r \<longrightarrow>
     pollInterval r = Unset \<and> \<not> timeout_pending r \<and> jobs_pending r = 0 \<and> assets_pending r = 0"
  shows "generate_pending (step e r) \<longrightarrow>
     pollInterval (step e r) = Unset \<and> \<not> timeout_pending (step e r) \<and>
     jobs_pending (step e r) = 0 \<and> assets_pending (step e r) = 0"
  using assms by (cases e) (auto simp: Let_def polling_catch_def)

lemma waiting_steps:
  assumes "generate_pending r \<longrightarrow>
     pollInterval r = Unset \<and> \<not> timeout_pending r \<and> jobs_pending r = 0 \<and> assets_pending r = 0"
  shows "generate_pending (steps es r) \<longrightarrow>
     pollInterval (steps es r) = Unset \<and> \<not> timeout_pending (steps es r) \<and>
     jobs_pending (steps es r) = 0 \<and> assets_pending (steps es r) = 0"
  using assms
proof (induction es arbitrary: r)
  case Nil
  then show ?case by (simp add: steps_def)
next
  case (Cons e es)
  show ?case unfolding steps_Cons
    by (rule Cons.IH) (rule waiting_step [OF Cons.prems])
qed

lemma started_step: "\<not> generate_pending r \<Longrightarrow> \<not> generate_pending (step e r)"
  by (cases e) (simp_all add: Let_def polling_catch_def)

lemma terminal_event_clears: "terminal_event e r \<Longrightarrow> pollInterval (step e r) = Cleared"
  by (cases e) (auto simp: Let_def polling_catch_def)

lemma cleared_step:
  "pollInterval r = Cleared \<Longrightarrow> \<not> generate_pending r \<Longrightarrow>
   pollInterval (step e r) = Cleared \<and>
   status_queries (log (step e r)) = status_queries (log r)"
  by (cases e) (simp_all add: Let_def polling_catch_def status_queries_def)

lemma cleared_steps:
  "pollInterval r = Cleared \<Longrightarrow> \<not> generate_pending r \<Longrightarrow>
   pollInterval (steps es r) = Cleared \<and>
   status_queries (log (steps es r)) = status_queries (log r)"
proof (induction es arbitrary: r)
  case Nil
  then show ?case by (simp add: steps_def)
next
  case (Cons e es)
  from Cons.prems have "pollInterval (step e r) = Cleared" "\<not> generate_pending (step e r)"
    and q: "status_queries (log (step e r)) = status_queries (log r)"
    by (simp_all add: cleared_step started_step)
  then show ?case unfolding steps_Cons using Cons.IH [of "step e r"] q by simp
qed

text \<open>
  Claim C2, amended. In every run of an accepted Generate, once an event has recorded a
  terminal classification (a status answer of completed or failed, an exception caught in
  the interval callback, or the timeout), the interval stays cleared and no further
  status query is sent, whatever events follow. Answers to status queries that were
  already under way are still processed when they arrive.
\<close>

theorem no_status_query_after_terminal:
  assumes "handleGenerate s = Suspended r0" and "terminal_event e (steps es0 r0)"
  shows "pollInterval (steps (es0 @ e # es) r0) = Cleared \<and>
         status_queries (log (steps (es0 @ e # es) r0)) =
           status_queries (log (steps (es0 @ [e]) r0))"
proof -
  let ?r = "steps es0 r0"
  from assms(1) have "generate_pending r0 \<longrightarrow>
      pollInterval r0 = Unset \<and> \<not> timeout_pending r0 \<and> jobs_pending r0 = 0 \<and>
      assets_pending r0 = 0"
    by (auto simp: handleGenerate_def Let_def split: if_splits)
  then have inv: "generate_pending ?r \<longrightarrow>
      pollInterval ?r = Unset \<and> \<not> timeout_pending ?r \<and> jobs_pending ?r = 0 \<and>
      assets_pending ?r = 0"
    by (rule waiting_steps)
  have "\<not> generate_pending ?r"
    using inv assms(2) by (cases e) auto
  then have "\<not> generate_pending (step e ?r)" by (rule started_step)
  moreover have "pollInterval (step e ?r) = Cleared"
    using assms(2) by (rule terminal_event_clears)
  ultimately have "pollInterval (steps es (step e ?r)) = Cleared \<and>
      status_queries (log (steps es (step e ?r))) = status_queries (log (step e ?r))"
    by (simp add: cleared_steps)
  then show ?thesis by (simp add: steps_append steps_Cons steps_def)
qed

text \<open>
  After the answer \<open>failed\<close> to the first status query, two more ticks of the interval
  (which cannot happen any more), a late timeout and nothing else add no status query to
  the single one sent.
\<close>

theorem no_status_query_after_terminal_witness:
  "map_option pollInterval
     (run_events uploaded_page
        ([Generate_resolved, Interval_tick] @
         Job_resolved \<lparr>status = ''failed'', error = None\<rparr> #
         [Interval_tick, Timeout_fired, Interval_tick])) = Some Cleared \<and>
   map_option queries_sent
     (run_events uploaded_page
        ([Generate_resolved, Interval_tick] @
         Job_resolved \<lparr>status = ''failed'', error = None\<rparr> #
         [Interval_tick, Timeout_fired, Interval_tick])) = Some [Get_job ''J1'']"
proof -
  let ?failed = "\<lparr>status = ''failed'', error = None\<rparr>"
  obtain r0 where r0: "handleGenerate uploaded_page = Suspended r0"
    and c: "generate_pending r0" "closure_jobId r0 = ''J1''" "status_queries (log r0) = []"
    by (simp add: handleGenerate_def uploaded_page_def initial_page_def initial_outputs_def
        Let_def status_queries_def)
  have t: "terminal_event (Job_resolved ?failed) (steps [Generate_resolved, Interval_tick] r0)"
    using c by (simp add: steps_def)
  have q: "status_queries (log (steps ([Generate_resolved, Interval_tick] @
             [Job_resolved ?failed]) r0)) = [Get_job ''J1'']"
    using c by (simp add: steps_def status_queries_def)
  from no_status_query_after_terminal [OF r0 t, of "[Interval_tick, Timeout_fired, Interval_tick]"] q
  show ?thesis
    by (simp add: run_events_def start_def r0 queries_sent_def)
qed

section \<open>Downloads\<close>

lemma forEach_timeouts_fst:
  "map fst (forEach_timeouts str k assets) = map (\<lambda>i. i * 100) [k..<k + length assets]"
proof (induction assets arbitrary: k)
  case Nil
  show ?case by simp
next
  case (Cons a rest)
  have "k < k + length (a # rest)" by simp
  then have "[k..<k + length (a # rest)] = k # [Suc k..<k + length (a # rest)]"
    by (rule upt_conv_Cons)
  moreover have "k + length (a # rest) = Suc k + length rest" by simp
  ultimately have "[k..<k + length (a # rest)] = k # [Suc k..<Suc k + length rest]"
    by (simp only:)
  moreover have "map fst (forEach_timeouts str k (a # rest)) =
      k * 100 # map fst (forEach_timeouts str (Suc k) rest)"
    by simp
  ultimately show ?case by (simp only: Cons.IH list.map)
qed

lemma forEach_timeouts_snd:
  "map snd (forEach_timeouts str k assets) = map (downloadAsset str) assets"
  by (induction assets arbitrary: k) (simp_all add: downloadAsset_def)

lemma sorted_times: "sorted (map (\<lambda>i. i * 100) [k..<n::nat])"
  by (simp add: sorted_map sorted_wrt_iff_nth_less)

lemma fire_order_forEach:
  "fire_order (forEach_timeouts str k assets) = forEach_timeouts str k assets"
  unfolding fire_order_def
  by (rule sort_key_id_if_sorted) (simp add: forEach_timeouts_fst sorted_times)

text \<open>
  Claim C9. The timeouts that \<open>handleDownloadAll\<close> registers fire in the order of the
  assets in the store, one per asset; the one of the asset at position \<open>i\<close> fires
  \<open>i * 100\<close> ms after the click; what it does is what \<open>downloadAsset\<close> does for that
  asset; and the file name of each download is
  \<open>asset_{type}_{language}_{width}x{height}.{format}\<close> of that asset.
\<close>

theorem handleDownloadAll_order:
  "map snd (fire_order (fst (handleDownloadAll str assets))) = map (downloadAsset str) assets \<and>
   map fst (fire_order (fst (handleDownloadAll str assets))) =
     map (\<lambda>i. i * 100) [0..<length assets] \<and>
   map download_name (map (downloadAsset str) assets) =
     map (\<lambda>a. Some (spec_filename str a)) assets"
  by (simp add: handleDownloadAll_def fire_order_forEach forEach_timeouts_fst
      forEach_timeouts_snd downloadAsset_def spec_filename_def)

end
